theory Spec2Isabelle
  imports Main "HOL-Library.Char_ord" "HOL-Library.List_Lexorder" "HOL-Library.Sublist"
    "HOL-Library.AList"
begin

section \<open>The archive sweeper of \<^verbatim>\<open>src/city/zip.py\<close>\<close>

text \<open>
  The script lists the \<^verbatim>\<open>*.zip\<close> entries of the working directory, sorts them, and for
  each one opens it with \<^verbatim>\<open>zipfile.ZipFile\<close>, calls \<^verbatim>\<open>extractall\<close> on the working
  directory and unlinks the archive. It catches no exception.

  The script itself is thirty lines; everything it does to the file system it does through
  \<^verbatim>\<open>pathlib\<close> and \<^verbatim>\<open>zipfile\<close> of the Python standard library. Those calls are modelled
  here after CPython on a POSIX system, on an explicit file system:
  \<^item> a path is the list of its components, relative to the working directory; a path with
    a component \<^verbatim>\<open>..\<close> names a place that may lie outside the working directory;
  \<^item> the file system is an association list from paths to nodes, in the (arbitrary) order
    in which the operating system lists them;
  \<^item> the bytes of a file are abstracted to what \<^verbatim>\<open>zipfile\<close> makes of them: a list of
    members (stored name and data) when they form a ZIP archive, plain bytes otherwise;
    the data of a member may be damaged (a wrong checksum, a broken stream), which shows
    while that member is unpacked, or unreadable (a broken local header), which shows
    before anything is written for it;
  \<^item> what the environment does is part of the world and does not change during a run:
    the accesses it refuses (\<open>denied\<close>), the members of an archive that can still be read
    after the file of the archive has been written over (\<open>cached\<close>), the printing that
    fails (\<open>write_error\<close>) and the flushing of the standard streams at exit that
    fails (\<open>flush_error\<close>), the last two depending on what has been printed;
  \<^item> there are no symbolic links, names that differ in case are different names, nobody
    else changes the directory during the run, and no signal ends the run from outside.
\<close>

subsection \<open>Data\<close>

type_synonym path = "string list"

datatype exn =
    FileNotFoundError | IsADirectoryError | NotADirectoryError | FileExistsError
  | PermissionError | BadZipFile | EOFError | OSError | Other string

datatype content =
    Bytes string
  | Damaged exn
  | Unreadable
  | Archive "(string \<times> content) list"

datatype node = File content | Dir

type_synonym fs = "(path \<times> node) list"

datatype access = Reading | Writing | Filling | Unlinking

record world =
  files :: fs
  denied :: "access \<Rightarrow> path \<Rightarrow> bool"
  cached :: "string \<Rightarrow> string \<Rightarrow> bool"
  stdout :: "string list"
  write_error :: "string list \<Rightarrow> bool"
  flush_error :: "string list \<Rightarrow> bool"

definition lookup :: "fs \<Rightarrow> path \<Rightarrow> node option" where
  "lookup f p = map_of f p"

definition store :: "path \<Rightarrow> node \<Rightarrow> world \<Rightarrow> world" where
  "store p n w = w\<lparr>files := AList.update p n (files w)\<rparr>"

subsection \<open>\<^verbatim>\<open>print\<close>\<close>

text \<open>
  \<^verbatim>\<open>print\<close> hands a line to standard output. It raises \<^verbatim>\<open>OSError\<close> when the stream has
  to write and cannot (at once on an unbuffered or line-buffered stream, when the buffer
  is full otherwise); the line is then not part of the output.
\<close>

definition print :: "string \<Rightarrow> world \<Rightarrow> exn option \<times> world" where
  "print line w =
     (if write_error w (stdout w @ [line]) then (Some OSError, w)
      else (None, w\<lparr>stdout := stdout w @ [line]\<rparr>))"

subsection \<open>\<^verbatim>\<open>Path(".").glob("*.zip")\<close> and \<^verbatim>\<open>sorted\<close>\<close>

text \<open>
  \<^verbatim>\<open>glob\<close> scans the working directory and yields every entry (file or directory, hidden
  or not) whose name matches the pattern; \<^verbatim>\<open>*.zip\<close> is translated by \<^verbatim>\<open>fnmatch\<close> to
  the regular expression \<^verbatim>\<open>.*\.zip\<close>, matched against the whole name and, for a POSIX
  path, with case: the name ends with the four characters \<^verbatim>\<open>.zip\<close>.
\<close>

definition fnmatch_zip :: "string \<Rightarrow> bool" where
  "fnmatch_zip name = (drop (length name - 4) name = ''.zip'')"

definition glob_zip :: "fs \<Rightarrow> string list" where
  "glob_zip f = map (hd \<circ> fst) (filter (\<lambda>e. length (fst e) = 1 \<and> fnmatch_zip (hd (fst e))) f)"

text \<open>
  \<^verbatim>\<open>sorted\<close> compares the paths by their parts, here one string each, and strings
  character by character: the lexicographic order of \<^typ>\<open>string\<close>.
\<close>

definition discover :: "world \<Rightarrow> string list" where
  "discover w = sort (glob_zip (files w))"

subsection \<open>\<^verbatim>\<open>zipfile.ZipFile(zip_path, "r")\<close>\<close>

definition ZipFile :: "string \<Rightarrow> world \<Rightarrow> exn + (string \<times> content) list" where
  "ZipFile name w =
     (case lookup (files w) [name] of
        None \<Rightarrow> Inl FileNotFoundError
      | Some Dir \<Rightarrow> Inl IsADirectoryError
      | Some (File c) \<Rightarrow>
          if denied w Reading [name] then Inl PermissionError
          else (case c of Archive ms \<Rightarrow> Inr ms | _ \<Rightarrow> Inl BadZipFile))"

subsection \<open>\<^verbatim>\<open>ZipFile.extractall\<close>\<close>

text \<open>
  \<^verbatim>\<open>extractall\<close> extracts the members in their stored order, each with
  \<^verbatim>\<open>_extract_member\<close>: the stored name is split at \<^verbatim>\<open>/\<close>, the empty components and the
  components \<^verbatim>\<open>.\<close> and \<^verbatim>\<open>..\<close> are dropped, and the rest is joined to the working
  directory; missing parent directories are made; a member whose name ends in \<^verbatim>\<open>/\<close> is a
  directory and is made if missing. For any other member the member is opened in the
  archive first, which fails when its local header cannot be read; then the target is
  opened with \<^verbatim>\<open>open(target, "wb")\<close>, over an existing file if there is one; then the
  data is copied, and when the data is damaged, or the environment stops the writing (a
  full disk), the target holds what came out before the exception was raised.
\<close>

fun split_on :: "char \<Rightarrow> string \<Rightarrow> string list" where
  "split_on c [] = [[]]"
| "split_on c (x # xs) =
     (if x = c then [] # split_on c xs
      else (case split_on c xs of [] \<Rightarrow> [[x]] | y # ys \<Rightarrow> (x # y) # ys))"

definition member_target :: "string \<Rightarrow> path" where
  "member_target name =
     filter (\<lambda>x. x \<noteq> [] \<and> x \<noteq> ''.'' \<and> x \<noteq> ''..'') (split_on CHR ''/'' name)"

definition is_dir :: "string \<Rightarrow> bool" where
  "is_dir name = (name \<noteq> [] \<and> last name = CHR ''/'')"

definition upperdirs :: "path \<Rightarrow> path list" where
  "upperdirs t = map (\<lambda>k. take k t) [1..<length t]"

fun makedirs :: "path list \<Rightarrow> world \<Rightarrow> exn option \<times> world" where
  "makedirs [] w = (None, w)"
| "makedirs (d # ds) w =
     (case lookup (files w) d of
        Some Dir \<Rightarrow> makedirs ds w
      | Some (File c) \<Rightarrow> (Some NotADirectoryError, w)
      | None \<Rightarrow>
          if denied w Writing d then (Some PermissionError, w)
          else makedirs ds (store d Dir w))"

definition damage :: "content \<Rightarrow> exn option" where
  "damage c = (case c of Damaged e \<Rightarrow> Some e | _ \<Rightarrow> None)"

definition copy_member :: "path \<Rightarrow> content \<Rightarrow> world \<Rightarrow> exn option \<times> world" where
  "copy_member t c w =
     (if c = Unreadable then (Some BadZipFile, w)
      else if t = [] \<or> lookup (files w) t = Some Dir then (Some IsADirectoryError, w)
      else if denied w Writing t then (Some PermissionError, w)
      else if denied w Filling t then (Some OSError, store t (File (Damaged OSError)) w)
      else (damage c, store t (File c) w))"

definition extract_member :: "string \<times> content \<Rightarrow> world \<Rightarrow> exn option \<times> world" where
  "extract_member m w =
     (let t = member_target (fst m) in
      case makedirs (upperdirs t) w of
        (Some e, w1) \<Rightarrow> (Some e, w1)
      | (None, w1) \<Rightarrow>
          if is_dir (fst m) then
            (case lookup (files w1) t of
               Some Dir \<Rightarrow> (None, w1)
             | Some (File c) \<Rightarrow> (Some FileExistsError, w1)
             | None \<Rightarrow>
                 if t = [] then (None, w1)
                 else if denied w1 Writing t then (Some PermissionError, w1)
                 else (None, store t Dir w1))
          else copy_member t (snd m) w1)"

fun extractall :: "(string \<times> content) list \<Rightarrow> world \<Rightarrow> exn option \<times> world" where
  "extractall [] w = (None, w)"
| "extractall (m # ms) w =
     (case extract_member m w of
        (Some e, w1) \<Rightarrow> (Some e, w1)
      | (None, w1) \<Rightarrow> extractall ms w1)"

text \<open>
  An archive may store a member under its own name. Writing that member opens the file of
  the archive for writing and so empties it while it is being read. What the archive
  object still holds in memory can be read all the same, what it has to fetch from the
  file cannot: the data of the member that is being written is cut short (unless it is
  empty), and the local header of every later member is gone. \<open>as_read held z gone ms\<close>
  is what extraction sees of the members \<open>ms\<close> of the archive at the path \<open>z\<close>, where
  \<open>held\<close> says which members are in memory and \<open>gone\<close> whether the file has been emptied.
  Directories are made without reading anything.
\<close>

fun as_read :: "(string \<Rightarrow> bool) \<Rightarrow> path \<Rightarrow> bool \<Rightarrow> (string \<times> content) list
    \<Rightarrow> (string \<times> content) list" where
  "as_read held z gone [] = []"
| "as_read held z gone (m # ms) =
     (if is_dir (fst m) then m # as_read held z gone ms
      else if gone then
        (if held (fst m) then m else (fst m, Unreadable)) # as_read held z gone ms
      else if member_target (fst m) = z then
        (if held (fst m) \<or> snd m = Bytes [] then m else (fst m, Damaged EOFError))
          # as_read held z True ms
      else m # as_read held z gone ms)"

subsection \<open>\<^verbatim>\<open>Path.unlink\<close>\<close>

definition unlink :: "string \<Rightarrow> world \<Rightarrow> exn option \<times> world" where
  "unlink name w =
     (case lookup (files w) [name] of
        None \<Rightarrow> (Some FileNotFoundError, w)
      | Some Dir \<Rightarrow> (Some IsADirectoryError, w)
      | Some (File c) \<Rightarrow>
          if denied w Unlinking [name] then (Some PermissionError, w)
          else (None, w\<lparr>files := AList.delete [name] (files w)\<rparr>))"

subsection \<open>\<^verbatim>\<open>main\<close>\<close>

text \<open>\<^verbatim>\<open>str(n)\<close> for the length of a list: the decimal digits of a natural number.\<close>

function str :: "nat \<Rightarrow> string" where
  "str n = (if n < 10 then [''0123456789'' ! n] else str (n div 10) @ [''0123456789'' ! (n mod 10)])"
  by pat_completeness auto
termination
  by (relation "measure id") auto

declare str.simps [simp del]

text \<open>
  Lines 18 and 19, the \<^verbatim>\<open>with\<close> block: the archive is opened and extracted, and closed on
  every way out.
\<close>

definition with_block :: "string \<Rightarrow> world \<Rightarrow> exn option \<times> world" where
  "with_block name w =
     (case ZipFile name w of
        Inl e \<Rightarrow> (Some e, w)
      | Inr zf \<Rightarrow> extractall (as_read (cached w name) [name] False zf) w)"

text \<open>
  The body of the \<^verbatim>\<open>for\<close> loop, lines 17 to 24, for one archive. An exception leaves the
  body, the loop and \<^verbatim>\<open>main\<close> at once, with the world as it is at that moment.
\<close>

definition body :: "string \<Rightarrow> world \<Rightarrow> exn option \<times> world" where
  "body name w =
     (case print (''Extracting: '' @ name) w of
        (Some e, w1) \<Rightarrow> (Some e, w1)
      | (None, w1) \<Rightarrow>
     (case with_block name w1 of
        (Some e, w2) \<Rightarrow> (Some e, w2)
      | (None, w2) \<Rightarrow>
     (case print (''Extracted contents of '' @ name) w2 of
        (Some e, w3) \<Rightarrow> (Some e, w3)
      | (None, w3) \<Rightarrow>
     (case unlink name w3 of
        (Some e, w4) \<Rightarrow> (Some e, w4)
      | (None, w4) \<Rightarrow> print (''Deleted: '' @ name) w4))))"

fun for_loop :: "string list \<Rightarrow> world \<Rightarrow> exn option \<times> world" where
  "for_loop [] w = (None, w)"
| "for_loop (zip_path # rest) w =
     (case body zip_path w of
        (Some e, w1) \<Rightarrow> (Some e, w1)
      | (None, w1) \<Rightarrow> for_loop rest w1)"

definition main :: "world \<Rightarrow> (exn + int) \<times> world" where
  "main w =
     (let zip_files = discover w in
      if zip_files = [] then
        (case print ''No .zip files found in the current directory.'' w of
           (Some e, w1) \<Rightarrow> (Inl e, w1)
         | (None, w1) \<Rightarrow> (Inr 1, w1))
      else
        (case for_loop zip_files w of
           (Some e, w1) \<Rightarrow> (Inl e, w1)
         | (None, w1) \<Rightarrow>
             (case print (''Finished extracting '' @ str (length zip_files) @ '' file(s).'') w1 of
                (Some e, w2) \<Rightarrow> (Inl e, w2)
              | (None, w2) \<Rightarrow> (Inr 0, w2))))"

text \<open>
  Line 30, \<^verbatim>\<open>sys.exit(main())\<close>: the value returned by \<^verbatim>\<open>main\<close> is the exit status asked
  for, and an exception that nothing catches asks for 1. On the way out the interpreter
  flushes the standard streams, and when that fails the process ends with status 120
  whatever was asked for.
\<close>

definition exit_status :: "exn + int \<Rightarrow> int" where
  "exit_status r = (case r of Inr n \<Rightarrow> n | Inl e \<Rightarrow> 1)"

definition script :: "world \<Rightarrow> int \<times> world" where
  "script w =
     (case main w of
        (r, w1) \<Rightarrow> (if flush_error w1 (stdout w1) then 120 else exit_status r, w1))"

subsection \<open>What a run may touch\<close>

text \<open>
  The paths that extracting a member with a given stored name can create or write: its
  target and the directories above it, up to the working directory itself.
\<close>

definition touches :: "string \<Rightarrow> path set" where
  "touches name = {q. q \<noteq> [] \<and> prefix q (member_target name)}"

definition member_paths :: "(string \<times> content) list \<Rightarrow> path set" where
  "member_paths ms = (\<Union>m \<in> set ms. touches (fst m))"

text \<open>
  The paths named by the entries of the archive that a name holds in a world, and the
  paths that the discovered archives and their entries name at the start of a run.
\<close>

definition entry_paths :: "world \<Rightarrow> string \<Rightarrow> path set" where
  "entry_paths w name =
     (case lookup (files w) [name] of Some (File (Archive ms)) \<Rightarrow> member_paths ms | _ \<Rightarrow> {})"


text \<open>
  An archive none of whose members lands on, or below, an entry of the working directory
  that the pattern \<^verbatim>\<open>*.zip\<close> matches; and a world in which every discovered archive is
  such.
\<close>

definition zip_free :: "(string \<times> content) list \<Rightarrow> bool" where
  "zip_free ms =
     list_all (\<lambda>m. member_target (fst m) = [] \<or> \<not> fnmatch_zip (hd (member_target (fst m)))) ms"


subsection \<open>Fixtures\<close>

definition nobody :: "access \<Rightarrow> path \<Rightarrow> bool" where
  "nobody a p = False"

definition in_memory :: "string \<Rightarrow> string \<Rightarrow> bool" where
  "in_memory z name = True"

definition never :: "string list \<Rightarrow> bool" where
  "never out = False"

definition always :: "string list \<Rightarrow> bool" where
  "always out = True"

definition directory :: "fs \<Rightarrow> world" where
  "directory f =
     \<lparr>files = f, denied = nobody, cached = in_memory, stdout = [],
      write_error = never, flush_error = never\<rparr>"

definition no_archives :: world where
  "no_archives =
     directory [([''notes.txt''], File (Bytes ''hello'')), ([''A.ZIP''], File (Archive [])),
                ([''sub''], Dir), ([''sub'', ''x.zip''], File (Archive []))]"

definition unflushable :: world where
  "unflushable = no_archives\<lparr>flush_error := always\<rparr>"

definition corrupt_only :: world where
  "corrupt_only = directory [([''b.zip''], File (Bytes ''garbage''))]"

definition three_archives :: world where
  "three_archives =
     directory [([''c.zip''], File (Archive [])),
                ([''notes.txt''], File (Bytes ''hello'')),
                ([''b.zip''], File (Archive [(''sub/dir/file.txt'', Bytes ''x'')])),
                ([''A.ZIP''], File (Archive [])),
                ([''..'', ''secret''], File (Bytes ''s'')),
                ([''a.zip''], File (Archive [(''d/'', Bytes []), (''readme'', Bytes ''r'')]))]"




definition keep_b :: "access \<Rightarrow> path \<Rightarrow> bool" where
  "keep_b a p = (a = Unlinking \<and> p = [''b.zip''])"






section \<open>Discovery\<close>

lemma fnmatch_zip_iff: "fnmatch_zip name \<longleftrightarrow> (\<exists>stem. name = stem @ ''.zip'')"
proof
  assume "fnmatch_zip name"
  then have "name = take (length name - 4) name @ ''.zip''"
    unfolding fnmatch_zip_def by (metis append_take_drop_id)
  then show "\<exists>stem. name = stem @ ''.zip''" ..
next
  assume "\<exists>stem. name = stem @ ''.zip''"
  then show "fnmatch_zip name"
    by (auto simp: fnmatch_zip_def)
qed

lemma set_glob_zip:
  "set (glob_zip f) = {name. [name] \<in> fst ` set f \<and> fnmatch_zip name}"
proof -
  have "\<And>p. length p = 1 \<Longrightarrow> [hd p] = p"
    by (case_tac p) auto
  then show ?thesis
    unfolding glob_zip_def by (force simp: image_iff)
qed

lemma set_discover:
  "set (discover w) = {name. [name] \<in> fst ` set (files w) \<and> fnmatch_zip name}"
  by (simp add: discover_def set_glob_zip)






section \<open>The file system and standard output\<close>

lemma lookup_delete: "lookup (AList.delete p f) q = (if q = p then None else lookup f q)"
  by (simp add: lookup_def delete_conv')

lemma lookup_update: "lookup (AList.update p n f) q = (if q = p then Some n else lookup f q)"
  by (simp add: lookup_def update_conv')

lemma lookup_store [simp]:
  "lookup (files (store p n w)) q = (if q = p then Some n else lookup (files w) q)"
  by (simp add: store_def lookup_update)

lemma denied_store [simp]: "denied (store p n w) = denied w"
  by (simp add: store_def)

lemma stdout_store [simp]: "stdout (store p n w) = stdout w"
  by (simp add: store_def)

lemma print_result:
  assumes "print l w = (r, w')"
  obtains (raised) "write_error w (stdout w @ [l])" "r = Some OSError" "w' = w"
  | (printed) "\<not> write_error w (stdout w @ [l])" "r = None"
      "w' = w\<lparr>stdout := stdout w @ [l]\<rparr>"
  using assms by (auto simp: print_def split: if_splits)

lemma print_keeps_files: "print l w = (r, w') \<Longrightarrow> files w' = files w"
  by (erule print_result) simp_all

lemma print_accepted:
  "\<not> write_error w (stdout w @ [l]) \<Longrightarrow> print l w = (None, w\<lparr>stdout := stdout w @ [l]\<rparr>)"
  by (simp add: print_def)

lemma unlink_None:
  "unlink name w = (None, w') \<Longrightarrow> w' = w\<lparr>files := AList.delete [name] (files w)\<rparr>"
  by (auto simp: unlink_def split: option.splits node.splits if_splits)

lemma unlink_Some: "unlink z w = (Some e, w') \<Longrightarrow> w' = w"
  by (auto simp: unlink_def split: option.splits node.splits if_splits)

section \<open>Extraction of one archive\<close>

lemma makedirs_frame:
  "makedirs ds w = (r, w') \<Longrightarrow> q \<notin> set ds \<Longrightarrow> lookup (files w') q = lookup (files w) q"
  by (induction ds w rule: makedirs.induct)
     (auto split: option.splits node.splits if_splits)


lemma upperdirs_touch: "q \<in> set (upperdirs t) \<Longrightarrow> q \<noteq> [] \<and> strict_prefix q t"
  by (auto simp: upperdirs_def strict_prefix_def take_is_prefix)

lemma target_touches: "member_target name \<noteq> [] \<Longrightarrow> member_target name \<in> touches name"
  by (simp add: touches_def)

lemma upperdirs_touches: "q \<in> set (upperdirs (member_target name)) \<Longrightarrow> q \<in> touches name"
  by (auto simp: touches_def dest: upperdirs_touch)

text \<open>Copying the data of a member to its target.\<close>

lemma copy_member_cases:
  assumes "copy_member t c w = (r, w')"
  obtains (nothing) "w' = w" "r \<noteq> None"
  | (stopped) "t \<noteq> []" "lookup (files w) t \<noteq> Some Dir"
      "w' = store t (File (Damaged OSError)) w" "r \<noteq> None"
  | (written) "t \<noteq> []" "lookup (files w) t \<noteq> Some Dir"
      "w' = store t (File c) w" "r = damage c"
proof (cases "c = Unreadable \<or> t = [] \<or> lookup (files w) t = Some Dir \<or> denied w Writing t")
  case True
  with assms have "w' = w" "r \<noteq> None"
    by (auto simp: copy_member_def split: if_splits)
  then show ?thesis by (rule nothing)
next
  case False
  show ?thesis
  proof (cases "denied w Filling t")
    case True
    with assms False have "w' = store t (File (Damaged OSError)) w" "r \<noteq> None"
      by (auto simp: copy_member_def)
    with False stopped show ?thesis by blast
  next
    case no: False
    with assms False have "r = damage c" "w' = store t (File c) w"
      by (simp_all add: copy_member_def)
    with False written show ?thesis by blast
  qed
qed

lemma extract_member_cases:
  assumes "extract_member m w = (r, w')"
  obtains (upper) e where "makedirs (upperdirs (member_target (fst m))) w = (Some e, w')"
      "r = Some e"
  | (directory) w1 where "makedirs (upperdirs (member_target (fst m))) w = (None, w1)"
      "is_dir (fst m)"
      "w' = w1 \<or> (r = None \<and> member_target (fst m) \<noteq> []
          \<and> lookup (files w1) (member_target (fst m)) = None
          \<and> w' = store (member_target (fst m)) Dir w1)"
      "r = None \<longrightarrow> member_target (fst m) = []
          \<or> lookup (files w') (member_target (fst m)) = Some Dir"
  | (regular) w1 where "makedirs (upperdirs (member_target (fst m))) w = (None, w1)"
      "\<not> is_dir (fst m)" "copy_member (member_target (fst m)) (snd m) w1 = (r, w')"
proof -
  obtain r1 w1 where mk: "makedirs (upperdirs (member_target (fst m))) w = (r1, w1)"
    by force
  show ?thesis
  proof (cases r1)
    case (Some e)
    with assms mk have "r = Some e" "w' = w1" by (simp_all add: extract_member_def Let_def)
    with mk Some upper show ?thesis by blast
  next
    case None
    show ?thesis
    proof (cases "is_dir (fst m)")
      case False
      with assms mk None have "copy_member (member_target (fst m)) (snd m) w1 = (r, w')"
        by (simp add: extract_member_def Let_def)
      with mk None False regular show ?thesis by blast
    next
      case True
      with assms mk None have
        "w' = w1 \<or> (r = None \<and> member_target (fst m) \<noteq> []
          \<and> lookup (files w1) (member_target (fst m)) = None
          \<and> w' = store (member_target (fst m)) Dir w1)"
        and "r = None \<longrightarrow> member_target (fst m) = []
          \<or> lookup (files w') (member_target (fst m)) = Some Dir"
        by (auto simp: extract_member_def Let_def split: option.splits node.splits if_splits)
      with mk None True directory show ?thesis by blast
    qed
  qed
qed

lemma extract_member_frame:
  assumes "extract_member m w = (r, w')" and "q \<notin> touches (fst m)"
  shows "lookup (files w') q = lookup (files w) q"
proof -
  from assms(2) have u: "q \<notin> set (upperdirs (member_target (fst m)))"
    and t: "member_target (fst m) \<noteq> [] \<Longrightarrow> q \<noteq> member_target (fst m)"
    using upperdirs_touches target_touches by blast+
  from assms(1) show ?thesis
  proof (cases rule: extract_member_cases)
    case (upper e)
    from makedirs_frame [OF upper(1) u] show ?thesis .
  next
    case (directory w1)
    from makedirs_frame [OF directory(1) u] directory(3) t show ?thesis by auto
  next
    case (regular w1)
    from regular(3) makedirs_frame [OF regular(1) u] t show ?thesis
      by (cases rule: copy_member_cases) auto
  qed
qed




lemma extractall_frame:
  "extractall ms w = (r, w') \<Longrightarrow> q \<notin> member_paths ms \<Longrightarrow>
     lookup (files w') q = lookup (files w) q"
proof (induction ms arbitrary: w)
  case Nil
  then show ?case by simp
next
  case (Cons m ms)
  obtain r1 w1 where m: "extract_member m w = (r1, w1)" by force
  from Cons.prems(2) have q: "q \<notin> touches (fst m)" "q \<notin> member_paths ms"
    by (simp_all add: member_paths_def)
  from Cons.prems(1) m Cons.IH [of w1] q extract_member_frame [OF m q(1)] show ?case
    by (cases r1) auto
qed




text \<open>What extraction sees of an archive whose file may be written over.\<close>

lemma as_read_names: "map fst (as_read held z gone ms) = map fst ms"
  by (induction ms arbitrary: gone) auto

lemma member_paths_names: "member_paths ms = (\<Union>name \<in> set (map fst ms). touches name)"
  by (auto simp: member_paths_def)

lemma member_paths_as_read: "member_paths (as_read held z gone ms) = member_paths ms"
  by (simp only: member_paths_names as_read_names)

lemma as_read_same:
  "(\<And>m. m \<in> set ms \<Longrightarrow> member_target (fst m) \<noteq> z) \<Longrightarrow> as_read held z False ms = ms"
  by (induction ms) auto

lemma with_block_cases:
  assumes "with_block z w = (r, w')"
  obtains (failed_open) e where "ZipFile z w = Inl e" "r = Some e" "w' = w"
  | (opened) ms where "lookup (files w) [z] = Some (File (Archive ms))"
      "extractall (as_read (cached w z) [z] False ms) w = (r, w')"
proof (cases "ZipFile z w")
  case (Inl e)
  with assms have "r = Some e" "w' = w" by (simp_all add: with_block_def)
  with Inl failed_open show ?thesis by blast
next
  case (Inr ms)
  then have "lookup (files w) [z] = Some (File (Archive ms))"
    by (auto simp: ZipFile_def split: option.splits node.splits if_splits content.splits)
  moreover from assms Inr
  have "extractall (as_read (cached w z) [z] False ms) w = (r, w')"
    by (simp add: with_block_def)
  ultimately show ?thesis using opened by blast
qed

lemma with_block_frame:
  assumes "with_block z w = (r, w')" and "q \<notin> entry_paths w z"
  shows "lookup (files w') q = lookup (files w) q"
  using assms(1)
proof (cases rule: with_block_cases)
  case (failed_open e)
  then show ?thesis by simp
next
  case (opened ms)
  from opened(1) assms(2) have "q \<notin> member_paths (as_read (cached w z) [z] False ms)"
    by (simp add: entry_paths_def member_paths_as_read)
  from extractall_frame [OF opened(2) this] show ?thesis .
qed





text \<open>Archives whose members keep away from the names the pattern matches.\<close>

lemma zip_free_paths:
  assumes "zip_free ms" and "q \<in> member_paths ms"
  shows "\<not> fnmatch_zip (hd q)"
proof -
  from assms(2) obtain m where m: "m \<in> set ms" "q \<noteq> []" "prefix q (member_target (fst m))"
    by (auto simp: member_paths_def touches_def)
  from m(2,3) have "member_target (fst m) \<noteq> []" "hd (member_target (fst m)) = hd q"
    by (auto simp: prefix_def)
  with assms(1) m(1) show ?thesis
    by (auto simp: zip_free_def list_all_iff)
qed


lemma zip_free_entry_paths:
  assumes "\<And>ms. lookup (files w) [z] = Some (File (Archive ms)) \<Longrightarrow> zip_free ms"
    and "fnmatch_zip name"
  shows "[name] \<notin> entry_paths w z"
proof
  assume "[name] \<in> entry_paths w z"
  then obtain ms where "lookup (files w) [z] = Some (File (Archive ms))" "[name] \<in> member_paths ms"
    by (auto simp: entry_paths_def split: option.splits node.splits content.splits)
  with assms(1) zip_free_paths [of ms "[name]"] assms(2) show False by simp
qed


section \<open>The loop\<close>


text \<open>The body of the loop, taken apart at the step where it ends.\<close>

lemma body_cases:
  assumes "body z w = (r, w')"
  obtains (announcing) e where "print (''Extracting: '' @ z) w = (Some e, w')" "r = Some e"
  | (extracting) e w1 where "print (''Extracting: '' @ z) w = (None, w1)"
      "with_block z w1 = (Some e, w')" "r = Some e"
  | (reporting) e w1 w2 where "print (''Extracting: '' @ z) w = (None, w1)"
      "with_block z w1 = (None, w2)"
      "print (''Extracted contents of '' @ z) w2 = (Some e, w')" "r = Some e"
  | (deleting) e w1 w2 w3 where "print (''Extracting: '' @ z) w = (None, w1)"
      "with_block z w1 = (None, w2)"
      "print (''Extracted contents of '' @ z) w2 = (None, w3)"
      "unlink z w3 = (Some e, w')" "r = Some e"
  | (deleted) w1 w2 w3 w4 where "print (''Extracting: '' @ z) w = (None, w1)"
      "with_block z w1 = (None, w2)"
      "print (''Extracted contents of '' @ z) w2 = (None, w3)"
      "unlink z w3 = (None, w4)"
      "print (''Deleted: '' @ z) w4 = (r, w')"
proof -
  obtain r1 w1 where p1: "print (''Extracting: '' @ z) w = (r1, w1)" by force
  show ?thesis
  proof (cases r1)
    case (Some e)
    with assms p1 have "r = Some e" "w1 = w'"
      by (simp_all add: body_def del: append.simps)
    with p1 Some announcing show ?thesis by blast
  next
    case n1: None
    obtain r2 w2 where wb: "with_block z w1 = (r2, w2)" by force
    show ?thesis
    proof (cases r2)
      case (Some e)
      with assms p1 n1 wb have "r = Some e" "w2 = w'"
        by (simp_all add: body_def del: append.simps)
      with p1 n1 wb Some extracting show ?thesis by blast
    next
      case n2: None
      obtain r3 w3 where p2: "print (''Extracted contents of '' @ z) w2 = (r3, w3)" by force
      show ?thesis
      proof (cases r3)
        case (Some e)
        with assms p1 n1 wb n2 p2 have "r = Some e" "w3 = w'"
          by (simp_all add: body_def del: append.simps)
        with p1 n1 wb n2 p2 Some reporting show ?thesis by blast
      next
        case n3: None
        obtain r4 w4 where ul: "unlink z w3 = (r4, w4)" by force
        show ?thesis
        proof (cases r4)
          case (Some e)
          with assms p1 n1 wb n2 p2 n3 ul have "r = Some e" "w4 = w'"
            by (simp_all add: body_def del: append.simps)
          with p1 n1 wb n2 p2 n3 ul Some deleting show ?thesis by blast
        next
          case n4: None
          with assms p1 n1 wb n2 p2 n3 ul have "print (''Deleted: '' @ z) w4 = (r, w')"
            by (simp add: body_def del: append.simps)
          with p1 n1 wb n2 p2 n3 ul n4 deleted show ?thesis by blast
        qed
      qed
    qed
  qed
qed

text \<open>
  The file system after the body: what the extraction left, with or without the
  archive, or what was there when the first line could not be printed.
\<close>

lemma body_files:
  assumes "body z w = (r, w')"
  obtains (untouched) "files w' = files w" "r \<noteq> None"
  | (extracted) r1 w1 w2 where "files w1 = files w" "with_block z w1 = (r1, w2)"
      "files w' = files w2" "r \<noteq> None"
  | (unlinked) w1 w2 where "files w1 = files w" "with_block z w1 = (None, w2)"
      "lookup (files w2) [z] \<noteq> None"
      "files w' = AList.delete [z] (files w2)"
  using assms
proof (cases rule: body_cases)
  case (announcing e)
  from print_keeps_files [OF announcing(1)] announcing(2) untouched show ?thesis by simp
next
  case (extracting e w1)
  from print_keeps_files [OF extracting(1)] extracting(2,3) extracted [of w1 "Some e" w']
  show ?thesis by simp
next
  case (reporting e w1 w2)
  from print_keeps_files [OF reporting(1)] print_keeps_files [OF reporting(3)] reporting(2,4)
    extracted [of w1 None w2]
  show ?thesis by simp
next
  case (deleting e w1 w2 w3)
  from unlink_Some [OF deleting(4)] print_keeps_files [OF deleting(1)]
    print_keeps_files [OF deleting(3)] deleting(2,5) extracted [of w1 None w2]
  show ?thesis by simp
next
  case (deleted w1 w2 w3 w4)
  from unlink_None [OF deleted(4)] print_keeps_files [OF deleted(3)]
    print_keeps_files [OF deleted(5)]
  have f: "files w' = AList.delete [z] (files w2)" by simp
  from deleted(4) print_keeps_files [OF deleted(3)] have "lookup (files w2) [z] \<noteq> None"
    by (auto simp: unlink_def split: option.splits)
  with f print_keeps_files [OF deleted(1)] deleted(2) unlinked [of w1 w2]
  show ?thesis by simp
qed



lemma entry_paths_files: "files w1 = files w \<Longrightarrow> entry_paths w1 z = entry_paths w z"
  by (simp add: entry_paths_def)



lemma body_zip_names:
  assumes "body z w = (r, w')"
    and "\<And>ms. lookup (files w) [z] = Some (File (Archive ms)) \<Longrightarrow> zip_free ms"
    and "fnmatch_zip name"
  shows "lookup (files w') [name] = lookup (files w) [name]
     \<or> (name = z \<and> lookup (files w') [name] = None)"
proof -
  from zip_free_entry_paths [OF assms(2,3)] have e: "[name] \<notin> entry_paths w z" by simp
  from assms(1) show ?thesis
  proof (cases rule: body_files)
    case untouched
    then show ?thesis by simp
  next
    case (extracted r1 w1 w2)
    from e entry_paths_files [OF extracted(1)] have "[name] \<notin> entry_paths w1 z" by simp
    from with_block_frame [OF extracted(2) this] extracted(1,3) show ?thesis by simp
  next
    case (unlinked w1 w2)
    from e entry_paths_files [OF unlinked(1)] have "[name] \<notin> entry_paths w1 z" by simp
    from with_block_frame [OF unlinked(2) this] unlinked(1,4) show ?thesis
      by (simp add: lookup_delete)
  qed
qed




lemma for_loop_failed:
  "for_loop zs w = (Some e, w') \<Longrightarrow>
     \<exists>pre z post w1. zs = pre @ z # post \<and> for_loop pre w = (None, w1)
        \<and> body z w1 = (Some e, w')"
proof (induction zs arbitrary: w)
  case Nil
  then show ?case by simp
next
  case (Cons z zs)
  obtain r1 w1 where b: "body z w = (r1, w1)" by force
  show ?case
  proof (cases r1)
    case None
    with Cons.prems b have "for_loop zs w1 = (Some e, w')" by simp
    from Cons.IH [OF this] obtain pre z' post w2
      where "zs = pre @ z' # post" "for_loop pre w1 = (None, w2)" "body z' w2 = (Some e, w')"
      by blast
    with b None have "z # zs = (z # pre) @ z' # post \<and> for_loop (z # pre) w = (None, w2)
        \<and> body z' w2 = (Some e, w')" by simp
    then show ?thesis by blast
  next
    case (Some e')
    with Cons.prems b have "z # zs = [] @ z # zs \<and> for_loop [] w = (None, w)
        \<and> body z w = (Some e, w')" by simp
    then show ?thesis by blast
  qed
qed

text \<open>
  Runs over archives whose members keep away from the names the pattern matches: such a
  name holds what it held before, or nothing once its own archive has been deleted.
\<close>

lemma for_loop_zip_names:
  "for_loop zs w = (r, w') \<Longrightarrow>
   (\<And>z ms. z \<in> set zs \<Longrightarrow> lookup (files w) [z] = Some (File (Archive ms)) \<Longrightarrow> zip_free ms) \<Longrightarrow>
   (\<And>z. z \<in> set zs \<Longrightarrow> fnmatch_zip z) \<Longrightarrow> fnmatch_zip name \<Longrightarrow>
   lookup (files w') [name] = lookup (files w) [name]
     \<or> (name \<in> set zs \<and> lookup (files w') [name] = None)"
proof (induction zs arbitrary: w)
  case Nil
  then show ?case by simp
next
  case (Cons z zs)
  obtain r1 w1 where b: "body z w = (r1, w1)" by force
  have step: "lookup (files w1) [n] = lookup (files w) [n] \<or> (n = z \<and> lookup (files w1) [n] = None)"
    if "fnmatch_zip n" for n
    using body_zip_names [OF b _ that] Cons.prems(2) [of z] by simp
  show ?case
  proof (cases r1)
    case (Some e)
    with Cons.prems(1) b have "w' = w1" by simp
    with step [OF Cons.prems(4)] show ?thesis by auto
  next
    case None
    with Cons.prems(1) b have rest: "for_loop zs w1 = (r, w')" by simp
    have "zip_free ms" if "z' \<in> set zs" "lookup (files w1) [z'] = Some (File (Archive ms))" for z' ms
    proof -
      from that(1) Cons.prems(3) have "fnmatch_zip z'" by simp
      from step [OF this] that(2) have "lookup (files w) [z'] = Some (File (Archive ms))"
        by auto
      with Cons.prems(2) [of z' ms] that(1) show ?thesis by simp
    qed
    from Cons.IH [OF rest this] Cons.prems(3,4)
    have "lookup (files w') [name] = lookup (files w1) [name]
       \<or> (name \<in> set zs \<and> lookup (files w') [name] = None)"
      by simp
    with step [OF Cons.prems(4)] show ?thesis by auto
  qed
qed




section \<open>Runs as a whole\<close>

lemma main_empty:
  assumes "discover w = []"
  shows "main w =
     (if write_error w (stdout w @ [''No .zip files found in the current directory.''])
      then (Inl OSError, w)
      else (Inr 1, w\<lparr>stdout := stdout w @ [''No .zip files found in the current directory.'']\<rparr>))"
  using assms by (simp add: main_def print_def)

lemma script_status:
  "fst (script w) =
     (if flush_error (snd (main w)) (stdout (snd (main w))) then 120
      else exit_status (fst (main w)))"
  by (simp add: script_def split: prod.splits)










section \<open>The claims\<close>

lemmas run_simps = discover_def glob_zip_def fnmatch_zip_def main_def script_def exit_status_def
  body_def with_block_def ZipFile_def unlink_def extract_member_def copy_member_def damage_def
  member_target_def is_dir_def upperdirs_def lookup_def store_def print_def directory_def
  nobody_def keep_b_def in_memory_def never_def always_def Let_def







text \<open>
  Claim C3, as amended. The exit status is 120 whenever the standard streams cannot be
  flushed at exit, whatever the run did. Otherwise it is 0 when \<^verbatim>\<open>main\<close> returns 0 and 1
  in every other case. \<^verbatim>\<open>main\<close> returns 0 exactly when at least one archive was
  discovered, the loop ran to its end and the summary line was printed; it returns 1
  exactly when no archive was discovered and the line saying so was printed; in every
  other case an exception leaves it. A run that discovers nothing and a run that fails
  are therefore not told apart by the exit status.
\<close>

theorem exit_status_values:
  "fst (script w) =
     (if flush_error (snd (main w)) (stdout (snd (main w))) then 120
      else if fst (main w) = Inr 0 then 0 else 1)
   \<and> (fst (main w) = Inr 0 \<longleftrightarrow>
        discover w \<noteq> []
        \<and> (\<exists>w1. for_loop (discover w) w = (None, w1)
              \<and> \<not> write_error w1 (stdout w1 @
                    [''Finished extracting '' @ str (length (discover w)) @ '' file(s).''])))
   \<and> (fst (main w) = Inr 1 \<longleftrightarrow>
        discover w = []
        \<and> \<not> write_error w (stdout w @ [''No .zip files found in the current directory.'']))"
proof -
  obtain r w1 where f: "for_loop (discover w) w = (r, w1)" by force
  have 0: "fst (main w) = Inr 0 \<longleftrightarrow>
        discover w \<noteq> []
        \<and> (\<exists>w1. for_loop (discover w) w = (None, w1)
              \<and> \<not> write_error w1 (stdout w1 @
                    [''Finished extracting '' @ str (length (discover w)) @ '' file(s).'']))"
    using f by (cases r) (auto simp add: main_def Let_def print_def simp del: append.simps)
  have 1: "fst (main w) = Inr 1 \<longleftrightarrow>
        discover w = []
        \<and> \<not> write_error w (stdout w @ [''No .zip files found in the current directory.''])"
    using f by (cases r) (auto simp add: main_def Let_def print_def simp del: append.simps)
  have "exit_status (fst (main w)) = (if fst (main w) = Inr 0 then 0 else 1)"
    using f by (cases r) (auto simp add: main_def Let_def print_def exit_status_def
        simp del: append.simps)
  with script_status [of w] 0 1 show ?thesis by simp
qed

theorem exit_status_values_witness:
  "fst (script three_archives) = 0 \<and> fst (main three_archives) = Inr 0
   \<and> fst (script no_archives) = 1 \<and> fst (main no_archives) = Inr 1
   \<and> fst (script corrupt_only) = 1 \<and> fst (main corrupt_only) = Inl BadZipFile
   \<and> fst (script unflushable) = 120 \<and> fst (main unflushable) = Inr 1"
proof -
  have "fst (main three_archives) = Inr 0" "fst (main no_archives) = Inr 1"
    "fst (main corrupt_only) = Inl BadZipFile" "fst (main unflushable) = Inr 1"
    by (simp_all add: three_archives_def no_archives_def corrupt_only_def unflushable_def run_simps)
  moreover have "flush_error (snd (main three_archives)) = never"
    "flush_error (snd (main no_archives)) = never"
    "flush_error (snd (main corrupt_only)) = never"
    "flush_error (snd (main unflushable)) = always"
    by (simp_all add: three_archives_def no_archives_def corrupt_only_def unflushable_def run_simps)
  ultimately show ?thesis
    using exit_status_values [of three_archives] exit_status_values [of no_archives]
      exit_status_values [of corrupt_only] exit_status_values [of unflushable]
    by (simp add: never_def always_def)
qed

text \<open>
  Claim C3 as stated fails: a run that discovers nothing and a run that fails on a
  damaged archive end with the same exit status.
\<close>

theorem empty_and_failure_same_status:
  "discover no_archives = [] \<and> fst (main no_archives) = Inr 1
   \<and> discover corrupt_only = [''b.zip''] \<and> fst (main corrupt_only) = Inl BadZipFile
   \<and> fst (script no_archives) = fst (script corrupt_only)"
  by (simp add: no_archives_def corrupt_only_def run_simps)






text \<open>
  Claim C6, as amended. When discovery yields no archive, the run leaves every file and
  directory as it was. If the line can be printed, \<^verbatim>\<open>main\<close> returns 1 and the only
  change to the world is the line \<^verbatim>\<open>No .zip files found in the current directory.\<close>
  added to standard output; if it cannot, \<^verbatim>\<open>main\<close> ends with \<^verbatim>\<open>OSError\<close> and nothing
  is added. The exit status is 1 in both cases, unless the standard streams cannot be
  flushed at exit: then it is 120.
\<close>

theorem nothing_to_do:
  assumes "discover w = []"
  shows "files (snd (main w)) = files w
     \<and> main w =
         (if write_error w (stdout w @ [''No .zip files found in the current directory.''])
          then (Inl OSError, w)
          else (Inr 1, w\<lparr>stdout := stdout w @ [''No .zip files found in the current directory.'']\<rparr>))
     \<and> fst (script w) = (if flush_error (snd (main w)) (stdout (snd (main w))) then 120 else 1)"
proof -
  note m = main_empty [OF assms]
  then have "files (snd (main w)) = files w" and "exit_status (fst (main w)) = 1"
    by (simp_all add: exit_status_def)
  with m script_status [of w] show ?thesis by simp
qed

theorem nothing_to_do_witness:
  "discover no_archives = []
   \<and> \<not> write_error no_archives (stdout no_archives @ [''No .zip files found in the current directory.''])
   \<and> fst (main no_archives) = Inr 1
   \<and> stdout (snd (main no_archives)) = [''No .zip files found in the current directory.'']
   \<and> \<not> flush_error (snd (main no_archives)) (stdout (snd (main no_archives)))
   \<and> fst (script no_archives) = 1
   \<and> files (snd (main no_archives)) = files no_archives"
proof -
  have h: "discover no_archives = []"
    by (simp add: no_archives_def directory_def discover_def glob_zip_def fnmatch_zip_def)
  have e: "write_error no_archives = never" "flush_error no_archives = never"
    "stdout no_archives = []"
    by (simp_all add: no_archives_def directory_def)
  from nothing_to_do [OF h] h e show ?thesis by (simp add: never_def)
qed

text \<open>
  Claim C6 as stated fails: in a directory without archives whose standard output cannot
  be flushed, the exit status is 120 and not the status 1 of a run with nothing to do.
\<close>

theorem nothing_found_status_120:
  "discover unflushable = []
   \<and> fst (main unflushable) = Inr 1
   \<and> fst (script unflushable) = 120"
  by (simp add: unflushable_def no_archives_def run_simps)




text \<open>
  Claim C8. Discovery selects exactly the entries of the working directory whose name ends
  in the four characters \<^verbatim>\<open>.zip\<close>, with case: an entry is discovered if and only if
  it lies directly in the working directory and its name is some stem followed by
  \<^verbatim>\<open>.zip\<close>; a name that ends in any other four characters, \<^verbatim>\<open>.ZIP\<close> for one, is
  not discovered.
\<close>

theorem discover_matches_suffix:
  "(name \<in> set (discover w) \<longleftrightarrow>
      [name] \<in> fst ` set (files w) \<and> (\<exists>stem. name = stem @ ''.zip''))
   \<and> (length ext = 4 \<and> ext \<noteq> ''.zip'' \<longrightarrow> stem' @ ext \<notin> set (discover w))"
  by (auto simp: set_discover fnmatch_zip_iff)

theorem discover_matches_suffix_witness:
  "[''a.zip''] \<in> fst ` set (files three_archives) \<and> ''a.zip'' \<in> set (discover three_archives)
   \<and> [''A.ZIP''] \<in> fst ` set (files three_archives) \<and> ''A.ZIP'' \<notin> set (discover three_archives)"
  using discover_matches_suffix [of "''a.zip''" three_archives "''.ZIP''" "''A''"]
  by (simp add: three_archives_def directory_def)







end
